theory Spec2Isabelle
  imports Main
begin

section \<open>Data model of the async hook (src/exercise/02.extra-1.js)\<close>

text \<open>
  JavaScript values that flow through the hook as payloads. \<open>Null\<close> and \<open>Undefined\<close> are
  the two nullish values; \<open>Val x\<close> is any other value.
\<close>

datatype 'v jsval = Null | Undefined | Val 'v

text \<open>
  The state object \<^verbatim>\<open>{status, data, error}\<close> held by \<^verbatim>\<open>React.useReducer\<close>. The status
  is a string in the source and stays one here.
\<close>

record 'v async_state =
  status :: string
  data :: "'v jsval"
  error :: "'v jsval"

text \<open>
  An action object. A field that the object literal does not mention reads as
  \<open>Undefined\<close>, as \<^verbatim>\<open>action.data\<close> does in JavaScript.
\<close>

record 'v action =
  a_type :: string
  a_data :: "'v jsval"
  a_error :: "'v jsval"

datatype js_error = Error string

text \<open>
  \<^verbatim>\<open>
  function reducer(state, action) {
    switch (action.type) {
      case 'pending':  return {status: 'pending', data: null, error: null}
      case 'resolved': return {status: 'resolved', data: action.data, error: null}
      case 'rejected': return {status: 'rejected', data: null, error: action.error}
      default: throw new Error(`Unhandled action type: ${action.type}`)
    }
  }
  \<close>
  The \<^verbatim>\<open>throw\<close> is the \<open>Inl\<close> branch.
\<close>

definition reducer :: "'v async_state \<Rightarrow> 'v action \<Rightarrow> js_error + 'v async_state" where
  "reducer state action =
     (if a_type action = ''pending'' then
        Inr \<lparr>status = ''pending'', data = Null, error = Null\<rparr>
      else if a_type action = ''resolved'' then
        Inr \<lparr>status = ''resolved'', data = a_data action, error = Null\<rparr>
      else if a_type action = ''rejected'' then
        Inr \<lparr>status = ''rejected'', data = Null, error = a_error action\<rparr>
      else Inl (Error (''Unhandled action type: '' @ a_type action)))"

text \<open>
  The optional argument \<^verbatim>\<open>initialStatus\<close> of \<^verbatim>\<open>useAsync\<close>: an object that may
  override any of the three fields when it is spread over the defaults.
\<close>

record 'v initialStatus =
  i_status :: "string option"
  i_data :: "'v jsval option"
  i_error :: "'v jsval option"

text \<open>
  \<^verbatim>\<open>{data: null, error: null, status: 'idle', ...initialStatus}\<close>
\<close>

definition initial_state :: "'v initialStatus \<Rightarrow> 'v async_state" where
  "initial_state i =
     \<lparr>status = (case i_status i of None \<Rightarrow> ''idle'' | Some s \<Rightarrow> s),
      data = (case i_data i of None \<Rightarrow> Null | Some d \<Rightarrow> d),
      error = (case i_error i of None \<Rightarrow> Null | Some e \<Rightarrow> e)\<rparr>"

section \<open>The hook instance as explicit state\<close>

text \<open>
  A promise is identified by a number. How it settles is decided by the environment.
\<close>

datatype 'v outcome = Fulfilled "'v jsval" | Rejected "'v jsval"

text \<open>
  Everything one mounted instance of \<^verbatim>\<open>useAsync\<close> owns or observes:
  \<^item> \<open>state\<close>: the current state of \<^verbatim>\<open>useReducer\<close>;
  \<^item> \<open>mountedRef\<close>: \<^verbatim>\<open>mountedRef.current\<close>;
  \<^item> \<open>reactions\<close>: the promises on which \<^verbatim>\<open>run\<close> has called \<^verbatim>\<open>then\<close> and whose callbacks
    have not run yet, in the order of registration (\<^verbatim>\<open>run\<close> always registers the same
    pair of callbacks, so the promise alone identifies a registration);
  \<^item> \<open>settled\<close>: the outcome of every promise that has settled;
  \<^item> \<open>calls\<close>: the actions the underlying \<^verbatim>\<open>unsafeDispatch\<close> of \<^verbatim>\<open>useReducer\<close> has
    been invoked with, oldest first;
  \<^item> \<open>thrown\<close>: the errors the reducer has thrown.
\<close>

record 'v world =
  state :: "'v async_state"
  mountedRef :: bool
  reactions :: "nat list"
  settled :: "nat \<rightharpoonup> 'v outcome"
  calls :: "'v action list"
  thrown :: "js_error list"

text \<open>
  The dispatch function returned by \<^verbatim>\<open>React.useReducer(reducer, ...)\<close>: the reducer is
  applied to the current state and the action; when it throws, no new state is produced.
\<close>

definition unsafeDispatch :: "'v action \<Rightarrow> 'v world \<Rightarrow> 'v world" where
  "unsafeDispatch action w =
     (case reducer (state w) action of
        Inr s \<Rightarrow> w\<lparr>state := s, calls := calls w @ [action]\<rparr>
      | Inl e \<Rightarrow> w\<lparr>calls := calls w @ [action], thrown := thrown w @ [e]\<rparr>)"

text \<open>
  \<^verbatim>\<open>
  const useSafeDispatch = (unsafeDispatch) => {
    const dispatch = React.useCallback((...args) => {
      if (mountedRef.current) { unsafeDispatch(...args) }
    }, [unsafeDispatch])
    const mountedRef = React.useRef(false);
    React.useEffect(() => {
      mountedRef.current = true;
      return () => { mountedRef.current = false; }
    })
    return dispatch;
  }
  \<close>
  The hook is modelled by the function it returns, over any underlying mutator, and by
  the two halves of its effect.
\<close>

definition useSafeDispatch ::
  "('a \<Rightarrow> 'v world \<Rightarrow> 'v world) \<Rightarrow> 'a \<Rightarrow> 'v world \<Rightarrow> 'v world" where
  "useSafeDispatch unsafe args w = (if mountedRef w then unsafe args w else w)"

definition effect :: "'v world \<Rightarrow> 'v world" where
  "effect w = w\<lparr>mountedRef := True\<rparr>"

definition cleanup :: "'v world \<Rightarrow> 'v world" where
  "cleanup w = w\<lparr>mountedRef := False\<rparr>"

text \<open>
  \<^verbatim>\<open>useAsync(initialStatus)\<close> at its first render: the reducer state is the merged
  initial object, \<^verbatim>\<open>useRef(false)\<close> gives the flag, nothing has been dispatched.
\<close>

definition useAsync :: "'v initialStatus \<Rightarrow> 'v world" where
  "useAsync i =
     \<lparr>state = initial_state i, mountedRef = False, reactions = [],
      settled = Map.empty, calls = [], thrown = []\<rparr>"

text \<open>\<^verbatim>\<open>const dispatch = useSafeDispatch(unsafeDispatch)\<close>\<close>

definition dispatch :: "'v action \<Rightarrow> 'v world \<Rightarrow> 'v world" where
  "dispatch = useSafeDispatch unsafeDispatch"

text \<open>
  \<^verbatim>\<open>promise.then(onFulfilled, onRejected)\<close>: the callbacks are registered and run later.
\<close>

definition then_register :: "nat \<Rightarrow> 'v world \<Rightarrow> 'v world" where
  "then_register promise w = w\<lparr>reactions := reactions w @ [promise]\<rparr>"

text \<open>
  The two callbacks every registration carries, over the dispatch function they close
  over:
  \<^verbatim>\<open>data => { dispatch({type: 'resolved', data}) }\<close> and
  \<^verbatim>\<open>error => { dispatch({type: 'rejected', error}) }\<close>.
\<close>

definition callbacks ::
  "('v action \<Rightarrow> 'v world \<Rightarrow> 'v world) \<Rightarrow> 'v outcome \<Rightarrow> 'v world \<Rightarrow> 'v world" where
  "callbacks disp oc w =
     (case oc of
        Fulfilled d \<Rightarrow> disp \<lparr>a_type = ''resolved'', a_data = d, a_error = Undefined\<rparr> w
      | Rejected e \<Rightarrow> disp \<lparr>a_type = ''rejected'', a_data = Undefined, a_error = e\<rparr> w)"

text \<open>
  \<^verbatim>\<open>
  const run = React.useCallback(promise => {
    if (!promise) { return; }
    dispatch({type: 'pending'})
    promise.then(data => {...}, error => {...})
  }, [dispatch])
  \<close>
  The argument is \<open>None\<close> for a falsy value (\<^verbatim>\<open>null\<close>, \<^verbatim>\<open>undefined\<close>) and \<open>Some p\<close>
  for the promise \<open>p\<close>.
\<close>

definition run :: "nat option \<Rightarrow> 'v world \<Rightarrow> 'v world" where
  "run promise w =
     (case promise of
        None \<Rightarrow> w
      | Some p \<Rightarrow>
          then_register p
            (dispatch \<lparr>a_type = ''pending'', a_data = Undefined, a_error = Undefined\<rparr> w))"

text \<open>
  The environment settles promise \<open>p\<close> with outcome \<open>oc\<close>, and the callbacks registered
  on \<open>p\<close> run, in the order of registration, each once. A promise settles once: when
  \<open>p\<close> has settled before, its recorded outcome is the one the callbacks receive (this is
  how a callback registered on a promise that had already settled gets its value).
\<close>

definition settle_with ::
  "('v action \<Rightarrow> 'v world \<Rightarrow> 'v world) \<Rightarrow> nat \<Rightarrow> 'v outcome \<Rightarrow> 'v world \<Rightarrow> 'v world" where
  "settle_with disp p oc w =
     (let oc' = (case settled w p of None \<Rightarrow> oc | Some old \<Rightarrow> old) in
      fold (\<lambda>_. callbacks disp oc') (filter (\<lambda>q. q = p) (reactions w))
        (w\<lparr>reactions := filter (\<lambda>q. q \<noteq> p) (reactions w),
           settled := (settled w)(p \<mapsto> oc')\<rparr>))"

text \<open>The callbacks of \<^verbatim>\<open>run\<close> close over the safe \<^verbatim>\<open>dispatch\<close>.\<close>

definition settle :: "nat \<Rightarrow> 'v outcome \<Rightarrow> 'v world \<Rightarrow> 'v world" where
  "settle = settle_with dispatch"

text \<open>
  What can happen to a hook instance: the effect of \<^verbatim>\<open>useSafeDispatch\<close> runs (on mount,
  and again after every render, since it has no dependency list), its cleanup runs
  (before the effect runs again, and on unmount), \<^verbatim>\<open>run\<close> is called, a promise settles,
  or \<^verbatim>\<open>dispatch\<close> is called with some action.
\<close>

datatype 'v event =
    Effect
  | Cleanup
  | Run "nat option"
  | Settle nat "'v outcome"
  | Dispatch "'v action"

fun occur :: "'v event \<Rightarrow> 'v world \<Rightarrow> 'v world" where
  "occur Effect w = effect w"
| "occur Cleanup w = cleanup w"
| "occur (Run promise) w = run promise w"
| "occur (Settle p oc) w = settle p oc w"
| "occur (Dispatch a) w = dispatch a w"

definition exec :: "'v event list \<Rightarrow> 'v world \<Rightarrow> 'v world" where
  "exec evs w = fold occur evs w"


definition settlement_state :: "'v outcome \<Rightarrow> 'v async_state" where
  "settlement_state oc =
     (case oc of
        Fulfilled d \<Rightarrow> \<lparr>status = ''resolved'', data = d, error = Null\<rparr>
      | Rejected e \<Rightarrow> \<lparr>status = ''rejected'', data = Null, error = e\<rparr>)"


subsection \<open>The component that uses the hook\<close>

text \<open>
  \<^verbatim>\<open>useAsync({status: pokemonName ? 'pending' : 'idle'})\<close>: the only call of the hook.
  A string is falsy exactly when it is empty.
\<close>

definition PokemonInfo_initialStatus :: "string \<Rightarrow> 'v initialStatus" where
  "PokemonInfo_initialStatus pokemonName =
     \<lparr>i_status = Some (if pokemonName \<noteq> [] then ''pending'' else ''idle''),
      i_data = None, i_error = None\<rparr>"

text \<open>
  \<^verbatim>\<open>
  React.useEffect(() => {
    if (!pokemonName) { return }
    run(fetchPokemon(pokemonName))
  }, [pokemonName, run])
  \<close>
  \<^verbatim>\<open>fetchPokemon\<close> is imported from another module; it is a parameter here, giving the
  promise it returns for a name.
\<close>

definition PokemonInfo_effect :: "(string \<Rightarrow> nat) \<Rightarrow> string \<Rightarrow> 'v world \<Rightarrow> 'v world" where
  "PokemonInfo_effect fetchPokemon pokemonName w =
     (if pokemonName = [] then w else run (Some (fetchPokemon pokemonName)) w)"

subsection \<open>The first version of the hook\<close>

text \<open>
  The file's first version has no safe dispatch and no \<^verbatim>\<open>run\<close>: the hook takes the
  callback and calls it in an effect.
  \<^verbatim>\<open>
  const asyncCallback = React.useCallback(() => {
    if (!pokemonName) { return }
    return fetchPokemon(pokemonName)
  }, [pokemonName]);
  \<close>
  \<^verbatim>\<open>
  React.useEffect(() => {
    const promise = asyncCallback();
    if (!promise) { return; }
    dispatch({type: 'pending'})
    promise.then(data => {...}, error => {...})
  }, [asyncCallback])
  \<close>
  Here \<^verbatim>\<open>dispatch\<close> is the one \<^verbatim>\<open>useReducer\<close> returns.
\<close>

definition asyncCallback :: "(string \<Rightarrow> nat) \<Rightarrow> string \<Rightarrow> unit \<Rightarrow> nat option" where
  "asyncCallback fetchPokemon pokemonName u =
     (if pokemonName = [] then None else Some (fetchPokemon pokemonName))"

definition useAsync_effect :: "(unit \<Rightarrow> nat option) \<Rightarrow> 'v world \<Rightarrow> 'v world" where
  "useAsync_effect callback w =
     (case callback () of
        None \<Rightarrow> w
      | Some p \<Rightarrow>
          then_register p
            (unsafeDispatch
               \<lparr>a_type = ''pending'', a_data = Undefined, a_error = Undefined\<rparr> w))"

subsection \<open>Variants and transitions\<close>

text \<open>
  The invariant of the data model: the status is one of the four names, \<open>data\<close> is
  non-null only when resolved, \<open>error\<close> is non-null only when rejected.
\<close>

definition variant_inv :: "'v async_state \<Rightarrow> bool" where
  "variant_inv s \<longleftrightarrow>
     status s \<in> {''idle'', ''pending'', ''resolved'', ''rejected''}
     \<and> (data s \<noteq> Null \<longrightarrow> status s = ''resolved'')
     \<and> (error s \<noteq> Null \<longrightarrow> status s = ''rejected'')"

text \<open>
  A change of state the data model allows: none at all, or from idle, resolved or
  rejected into pending, or from pending into resolved or rejected.
\<close>

definition transition_ok :: "'v async_state \<Rightarrow> 'v async_state \<Rightarrow> bool" where
  "transition_ok s s' \<longleftrightarrow>
     s' = s
     \<or> (status s \<in> {''idle'', ''resolved'', ''rejected''} \<and> status s' = ''pending'')
     \<or> (status s = ''pending'' \<and> status s' \<in> {''resolved'', ''rejected''})"

fun transitions_ok :: "'v event list \<Rightarrow> 'v world \<Rightarrow> bool" where
  "transitions_ok [] w = True"
| "transitions_ok (e # es) w =
     (transition_ok (state w) (state (occur e w)) \<and> transitions_ok es (occur e w))"

text \<open>
  Runs that do not overlap: \<^verbatim>\<open>run\<close> is called with a promise only while the instance is
  mounted and no callback of an earlier run is still waiting, and the state is changed
  through \<^verbatim>\<open>run\<close> only.
\<close>

fun admissible :: "'v event \<Rightarrow> 'v world \<Rightarrow> bool" where
  "admissible (Run (Some p)) w = (mountedRef w \<and> reactions w = [])"
| "admissible (Dispatch a) w = False"
| "admissible e w = True"

fun sequential :: "'v event list \<Rightarrow> 'v world \<Rightarrow> bool" where
  "sequential [] w = True"
| "sequential (e # es) w = (admissible e w \<and> sequential es (occur e w))"

section \<open>The counter (src/exercise/01.extra-1.js)\<close>

text \<open>
  A JavaScript number is an IEEE 754 double. Every finite double is an integer multiple
  of the smallest positive one, \<open>2^-1074\<close>, so a finite double is kept as that integer:
  \<open>Fin n\<close> is the double of value \<open>n * 2^-1074\<close>. The sum of two finite doubles is again
  such a multiple, which addition then rounds. The other numbers are the two infinities
  and NaN. The two zeros are not told apart: the button shows \<open>0\<close> for both.
\<close>

datatype jsnum = Fin int | PosInf | NegInf | NaN

definition subnormal_bits :: nat where
  "subnormal_bits = 1074"

text \<open>The number literals: an integer \<open>i\<close>, and \<open>0.5\<close>.\<close>

definition js_int :: "int \<Rightarrow> jsnum" where
  "js_int i = Fin (i * 2 ^ subnormal_bits)"

definition js_half :: jsnum where
  "js_half = Fin (2 ^ (subnormal_bits - 1))"

fun bit_length :: "nat \<Rightarrow> nat" where
  "bit_length n = (if n = 0 then 0 else Suc (bit_length (n div 2)))"

declare bit_length.simps [simp del]

text \<open>
  Which multiples of \<open>2^-1074\<close> are doubles: those of magnitude up to \<open>2^53\<close> units (the
  subnormal numbers and the first binades, where the spacing is one unit), and beyond
  them those below \<open>2^1024\<close> whose bits under the leading 53 are all zero.
\<close>

definition is_double :: "int \<Rightarrow> bool" where
  "is_double x \<longleftrightarrow>
     \<bar>x\<bar> \<le> 2 ^ 53
     \<or> (nat \<bar>x\<bar> < 2 ^ (1024 + subnormal_bits)
        \<and> 2 ^ (bit_length (nat \<bar>x\<bar>) - 53) dvd nat \<bar>x\<bar>)"

text \<open>
  A magnitude cut to 53 significant bits, to the nearest, ties to the even significand:
  with \<open>e\<close> the number of bits beyond 53, the magnitude is \<open>q * 2^e + r\<close>, and \<open>q\<close> is
  rounded up when \<open>r\<close> is more than half of \<open>2^e\<close>, or exactly half with \<open>q\<close> odd.
\<close>

definition round53 :: "nat \<Rightarrow> nat" where
  "round53 a =
     (let e = bit_length a - 53;
          q = a div 2 ^ e;
          r = a mod 2 ^ e;
          h = 2 ^ (e - 1);
          m = (if h < r \<or> (r = h \<and> odd q) then q + 1 else q)
      in m * 2 ^ e)"

text \<open>
  The double nearest to an exact sum. A magnitude up to \<open>2^53\<close> units is a double as it
  is; a larger one is rounded, and a result of \<open>2^1024\<close> or more is an infinity.
\<close>

definition round_double :: "int \<Rightarrow> jsnum" where
  "round_double x =
     (if \<bar>x\<bar> \<le> 2 ^ 53 then Fin x
      else
        let y = round53 (nat \<bar>x\<bar>)
        in if 2 ^ (1024 + subnormal_bits) \<le> y then (if 0 < x then PosInf else NegInf)
           else Fin (sgn x * int y))"

text \<open>The operator \<^verbatim>\<open>+\<close> on two numbers.\<close>

fun js_add :: "jsnum \<Rightarrow> jsnum \<Rightarrow> jsnum" where
  "js_add NaN y = NaN"
| "js_add x NaN = NaN"
| "js_add PosInf NegInf = NaN"
| "js_add NegInf PosInf = NaN"
| "js_add PosInf y = PosInf"
| "js_add x PosInf = PosInf"
| "js_add NegInf y = NegInf"
| "js_add x NegInf = NegInf"
| "js_add (Fin a) (Fin b) = round_double (a + b)"

text \<open>
  \<^verbatim>\<open>
  function Counter({initialCount = 0, step = 1}) {
    const [count, setCount] = React.useReducer(countReducer, initialCount)
    function countReducer(state, newState) { return state + newState }
    const increment = () => setCount(step)
    return <button onClick={increment}>{count}</button>
  }
  \<close>
  A prop that is not given is \<open>None\<close> and takes its default. \<open>Counter\<close> is the count the
  button shows after \<open>k\<close> clicks.
\<close>

definition countReducer :: "jsnum \<Rightarrow> jsnum \<Rightarrow> jsnum" where
  "countReducer state' newState = js_add state' newState"

definition increment :: "jsnum \<Rightarrow> jsnum \<Rightarrow> jsnum" where
  "increment step count = countReducer count step"

definition Counter :: "jsnum option \<Rightarrow> jsnum option \<Rightarrow> nat \<Rightarrow> jsnum" where
  "Counter initialCount step k =
     (let count0 = (case initialCount of None \<Rightarrow> js_int 0 | Some c \<Rightarrow> c);
          step' = (case step of None \<Rightarrow> js_int 1 | Some s \<Rightarrow> s)
      in (increment step' ^^ k) count0)"

section \<open>Properties of the reducer and of the safe dispatch\<close>

text \<open>
  Claim C9. For a recognised action (type \<open>pending\<close>, \<open>resolved\<close> or \<open>rejected\<close>) the
  reducer returns a successor state, and that state is the same whatever the previous
  state was.
\<close>

theorem reducer_ignores_state:
  assumes "a_type a \<in> {''pending'', ''resolved'', ''rejected''}"
  shows "reducer s1 a = reducer s2 a \<and> (\<exists>s'. reducer s1 a = Inr s')"
  using assms by (auto simp: reducer_def)

theorem reducer_ignores_state_witness:
  "a_type \<lparr>a_type = ''resolved'', a_data = Val (25::nat), a_error = Undefined\<rparr>
      \<in> {''pending'', ''resolved'', ''rejected''}
   \<and> reducer \<lparr>status = ''idle'', data = Null, error = Null\<rparr>
        \<lparr>a_type = ''resolved'', a_data = Val (25::nat), a_error = Undefined\<rparr>
     = reducer \<lparr>status = ''rejected'', data = Null, error = Val 7\<rparr>
        \<lparr>a_type = ''resolved'', a_data = Val 25, a_error = Undefined\<rparr>"
  using reducer_ignores_state
    [of "\<lparr>a_type = ''resolved'', a_data = Val (25::nat), a_error = Undefined\<rparr>"
        "\<lparr>status = ''idle'', data = Null, error = Null\<rparr>"
        "\<lparr>status = ''rejected'', data = Null, error = Val 7\<rparr>"]
  by simp

text \<open>
  Claim C3. The function returned by \<^verbatim>\<open>useSafeDispatch\<close>, over any underlying mutator:
  while \<^verbatim>\<open>mountedRef.current\<close> is false a call is a no-op, whatever the mutator is (so the
  mutator is not called, and the log of calls of the real \<^verbatim>\<open>unsafeDispatch\<close> does not
  grow); while it is true the call is the call of the mutator with the same argument.
\<close>

theorem safe_dispatch_guard:
  "(\<not> mountedRef w \<longrightarrow>
      useSafeDispatch unsafe a w = w \<and> calls (dispatch b w) = calls w)
   \<and> (mountedRef w \<longrightarrow>
      useSafeDispatch unsafe a w = unsafe a w
      \<and> dispatch b w = unsafeDispatch b w \<and> calls (dispatch b w) = calls w @ [b])"
  by (simp add: useSafeDispatch_def dispatch_def unsafeDispatch_def split: sum.split)

theorem safe_dispatch_guard_witness:
  "\<not> mountedRef (cleanup (useAsync \<lparr>i_status = None, i_data = None, i_error = None\<rparr>
        :: nat world))
   \<and> calls (dispatch \<lparr>a_type = ''pending'', a_data = Undefined, a_error = Undefined\<rparr>
        (cleanup (useAsync \<lparr>i_status = None, i_data = None, i_error = None\<rparr>
          :: nat world))) = []
   \<and> mountedRef (effect (useAsync \<lparr>i_status = None, i_data = None, i_error = None\<rparr>
        :: nat world))
   \<and> calls (dispatch \<lparr>a_type = ''pending'', a_data = Undefined, a_error = Undefined\<rparr>
        (effect (useAsync \<lparr>i_status = None, i_data = None, i_error = None\<rparr>
          :: nat world)))
      = [\<lparr>a_type = ''pending'', a_data = Undefined, a_error = Undefined\<rparr>]"
  using safe_dispatch_guard
    [of "cleanup (useAsync \<lparr>i_status = None, i_data = None, i_error = None\<rparr> :: nat world)"
        unsafeDispatch
        "\<lparr>a_type = ''pending'', a_data = Undefined, a_error = Undefined\<rparr>"
        "\<lparr>a_type = ''pending'', a_data = Undefined, a_error = Undefined\<rparr>"]
    safe_dispatch_guard
    [of "effect (useAsync \<lparr>i_status = None, i_data = None, i_error = None\<rparr> :: nat world)"
        unsafeDispatch
        "\<lparr>a_type = ''pending'', a_data = Undefined, a_error = Undefined\<rparr>"
        "\<lparr>a_type = ''pending'', a_data = Undefined, a_error = Undefined\<rparr>"]
  by (simp add: cleanup_def effect_def useAsync_def unsafeDispatch_def reducer_def)

text \<open>
  Claim C4. For an action whose type is none of \<open>pending\<close>, \<open>resolved\<close>, \<open>rejected\<close> the
  reducer throws \<^verbatim>\<open>Error("Unhandled action type: " + type)\<close> from any state; the
  dispatch that ran it records the error and leaves the state as it was.
\<close>

theorem unknown_action_fatal:
  assumes "a_type a \<notin> {''pending'', ''resolved'', ''rejected''}"
  shows "reducer s a = Inl (Error (''Unhandled action type: '' @ a_type a))
    \<and> state (unsafeDispatch a w) = state w
    \<and> thrown (unsafeDispatch a w)
        = thrown w @ [Error (''Unhandled action type: '' @ a_type a)]
    \<and> state (dispatch a w) = state w"
  using assms
  by (simp add: reducer_def unsafeDispatch_def dispatch_def useSafeDispatch_def)

theorem unknown_action_fatal_witness:
  "a_type \<lparr>a_type = ''reset'', a_data = Undefined, a_error = (Undefined :: nat jsval)\<rparr>
      \<notin> {''pending'', ''resolved'', ''rejected''}
   \<and> reducer \<lparr>status = ''resolved'', data = Val 3, error = Null\<rparr>
        \<lparr>a_type = ''reset'', a_data = Undefined, a_error = (Undefined :: nat jsval)\<rparr>
      = Inl (Error ''Unhandled action type: reset'')"
  using unknown_action_fatal
    [of "\<lparr>a_type = ''reset'', a_data = Undefined, a_error = (Undefined :: nat jsval)\<rparr>"
        "\<lparr>status = ''resolved'', data = Val 3, error = Null\<rparr>"]
  by simp

section \<open>What each operation touches\<close>

lemmas hook_defs = exec_def effect_def cleanup_def run_def settle_def settle_with_def
  then_register_def dispatch_def useSafeDispatch_def unsafeDispatch_def reducer_def
  callbacks_def useAsync_def initial_state_def PokemonInfo_initialStatus_def

lemma dispatch_mounted: "mountedRef w \<Longrightarrow> dispatch a w = unsafeDispatch a w"
  by (simp add: dispatch_def useSafeDispatch_def)

lemma dispatch_unmounted: "\<not> mountedRef w \<Longrightarrow> dispatch a w = w"
  by (simp add: dispatch_def useSafeDispatch_def)

lemma unsafeDispatch_frame:
  "mountedRef (unsafeDispatch a w) = mountedRef w"
  "reactions (unsafeDispatch a w) = reactions w"
  "settled (unsafeDispatch a w) = settled w"
  by (simp_all add: unsafeDispatch_def split: sum.split)

lemma dispatch_frame:
  "mountedRef (dispatch a w) = mountedRef w"
  "reactions (dispatch a w) = reactions w"
  "settled (dispatch a w) = settled w"
  by (simp_all add: dispatch_def useSafeDispatch_def unsafeDispatch_frame)

lemma callbacks_frame:
  "mountedRef (callbacks dispatch oc w) = mountedRef w"
  "reactions (callbacks dispatch oc w) = reactions w"
  "settled (callbacks dispatch oc w) = settled w"
  by (simp_all add: callbacks_def dispatch_frame split: outcome.split)

lemma callbacks_unmounted: "\<not> mountedRef w \<Longrightarrow> callbacks dispatch oc w = w"
  by (simp add: callbacks_def dispatch_unmounted split: outcome.split)

lemma callbacks_state:
  "mountedRef w \<Longrightarrow> state (callbacks dispatch oc w) = settlement_state oc"
  by (simp add: callbacks_def dispatch_mounted unsafeDispatch_def reducer_def
        settlement_state_def split: outcome.split)


text \<open>The callbacks of one settlement, run one after the other.\<close>

lemma fold_callbacks_frame:
  "mountedRef (fold (\<lambda>_. callbacks dispatch oc) xs w) = mountedRef w"
  "reactions (fold (\<lambda>_. callbacks dispatch oc) xs w) = reactions w"
  "settled (fold (\<lambda>_. callbacks dispatch oc) xs w) = settled w"
  by (induction xs arbitrary: w; simp add: callbacks_frame)+

lemma fold_callbacks_unmounted:
  "\<not> mountedRef w \<Longrightarrow> fold (\<lambda>_. callbacks dispatch oc) xs w = w"
  by (induction xs) (simp_all add: callbacks_unmounted)

lemma fold_callbacks_state:
  "mountedRef w \<Longrightarrow> xs \<noteq> [] \<Longrightarrow>
   state (fold (\<lambda>_. callbacks dispatch oc) xs w) = settlement_state oc"
proof (induction xs arbitrary: w)
  case Nil
  then show ?case by simp
next
  case (Cons x xs)
  show ?case
  proof (cases "xs = []")
    case True
    then show ?thesis using Cons.prems by (simp add: callbacks_state)
  next
    case False
    have "mountedRef (callbacks dispatch oc w)"
      using Cons.prems by (simp add: callbacks_frame)
    from Cons.IH [OF this False] show ?thesis by simp
  qed
qed


lemma settle_frame:
  "mountedRef (settle p oc w) = mountedRef w"
  "reactions (settle p oc w) = filter (\<lambda>q. q \<noteq> p) (reactions w)"
  "settled (settle p oc w)
     = (settled w)(p \<mapsto> (case settled w p of None \<Rightarrow> oc | Some old \<Rightarrow> old))"
  by (simp_all add: settle_def settle_with_def Let_def fold_callbacks_frame)

lemma settle_unmounted:
  "\<not> mountedRef w \<Longrightarrow> state (settle p oc w) = state w \<and> calls (settle p oc w) = calls w"
  by (simp add: settle_def settle_with_def Let_def fold_callbacks_unmounted)

lemma settle_absent: "p \<notin> set (reactions w) \<Longrightarrow> state (settle p oc w) = state w"
proof -
  assume "p \<notin> set (reactions w)"
  then have "filter (\<lambda>q. q = p) (reactions w) = []"
    by (auto simp: filter_empty_conv)
  then show ?thesis by (simp add: settle_def settle_with_def Let_def)
qed

lemma settle_state:
  assumes "mountedRef w" "p \<in> set (reactions w)"
  shows "state (settle p oc w)
    = settlement_state (case settled w p of None \<Rightarrow> oc | Some old \<Rightarrow> old)"
proof -
  have ne: "filter (\<lambda>q. q = p) (reactions w) \<noteq> []"
    using assms(2) by (simp add: filter_empty_conv)
  show ?thesis
    unfolding settle_def settle_with_def Let_def
    by (rule fold_callbacks_state) (use assms(1) ne in simp_all)
qed


lemma run_frame:
  "mountedRef (run promise w) = mountedRef w"
  "settled (run promise w) = settled w"
  "reactions (run promise w)
     = (case promise of None \<Rightarrow> reactions w | Some p \<Rightarrow> reactions w @ [p])"
  by (simp_all add: run_def then_register_def dispatch_frame split: option.split)

lemma run_state:
  "mountedRef w \<Longrightarrow>
   state (run (Some p) w) = \<lparr>status = ''pending'', data = Null, error = Null\<rparr>"
  by (simp add: run_def then_register_def dispatch_mounted unsafeDispatch_def reducer_def)

lemma run_unmounted:
  "\<not> mountedRef w \<Longrightarrow> state (run promise w) = state w \<and> calls (run promise w) = calls w"
  by (simp add: run_def then_register_def dispatch_unmounted split: option.split)

section \<open>The life of one run\<close>

text \<open>
  A callback stays registered, and its promise unsettled, through every event that is
  not the settlement of that promise.
\<close>

lemma occur_keeps_reaction:
  assumes "\<forall>oc. e \<noteq> Settle p oc"
  shows "p \<in> set (reactions w) \<Longrightarrow> p \<in> set (reactions (occur e w))"
    and "settled (occur e w) p = settled w p"
  using assms
  by (cases e; auto simp: effect_def cleanup_def run_frame settle_frame dispatch_frame
        split: option.split)+

lemma exec_keeps_reaction:
  assumes "\<forall>e \<in> set evs. \<forall>oc. e \<noteq> Settle p oc" "p \<in> set (reactions w)"
  shows "p \<in> set (reactions (exec evs w)) \<and> settled (exec evs w) p = settled w p"
  using assms unfolding exec_def
proof (induction evs arbitrary: w)
  case Nil
  then show ?case by simp
next
  case (Cons e evs)
  have e: "\<forall>oc. e \<noteq> Settle p oc" using Cons.prems(1) by simp
  have "p \<in> set (reactions (occur e w))"
    using occur_keeps_reaction(1) [OF e Cons.prems(2)] .
  moreover have "\<forall>e \<in> set evs. \<forall>oc. e \<noteq> Settle p oc" using Cons.prems(1) by simp
  ultimately have "p \<in> set (reactions (fold occur evs (occur e w)))
      \<and> settled (fold occur evs (occur e w)) p = settled (occur e w) p"
    using Cons.IH by blast
  then show ?case using occur_keeps_reaction(2) [OF e] by simp
qed

text \<open>
  Claim C1, amended. For every call \<^verbatim>\<open>run(p)\<close> with a promise made while
  \<^verbatim>\<open>mountedRef.current\<close> is true, the state is pending with null data and null error
  right after the call. Whatever happens next, short of \<open>p\<close> settling, when \<open>p\<close> then
  settles while \<^verbatim>\<open>mountedRef.current\<close> is true the state becomes the resolved state
  carrying the fulfilment value, or the rejected state carrying the rejection value
  (the value \<open>p\<close> had settled with before the call, if it had).
\<close>

theorem run_then_settle:
  assumes "mountedRef w"
    and "\<forall>e \<in> set evs. \<forall>oc. e \<noteq> Settle p oc"
    and "mountedRef (exec evs (run (Some p) w))"
  shows "state (run (Some p) w) = \<lparr>status = ''pending'', data = Null, error = Null\<rparr>
    \<and> state (settle p oc (exec evs (run (Some p) w)))
        = settlement_state (case settled w p of None \<Rightarrow> oc | Some old \<Rightarrow> old)"
proof -
  let ?w1 = "run (Some p) w"
  let ?w2 = "exec evs ?w1"
  have "p \<in> set (reactions ?w1)" by (simp add: run_frame)
  from exec_keeps_reaction [OF assms(2) this]
  have reg: "p \<in> set (reactions ?w2)" and same: "settled ?w2 p = settled w p"
    by (simp_all add: run_frame)
  show ?thesis
    using run_state [OF assms(1)] settle_state [OF assms(3) reg] same by simp
qed

text \<open>
  The two scenarios of the specification, from the idle state of a mounted instance,
  with a render between the call and the settlement: idle, pending, resolved with the
  data; idle, pending, rejected with the error.
\<close>

theorem run_then_settle_witness:
  "mountedRef (effect (useAsync (PokemonInfo_initialStatus []) :: string world))
   \<and> (\<nexists>oc. Settle 1 oc \<in> set ([Cleanup, Effect] :: string event list))
   \<and> mountedRef (exec [Cleanup, Effect]
        (run (Some 1) (effect (useAsync (PokemonInfo_initialStatus []))) :: string world))
   \<and> state (effect (useAsync (PokemonInfo_initialStatus [])) :: string world)
       = \<lparr>status = ''idle'', data = Null, error = Null\<rparr>
   \<and> state (run (Some 1) (effect (useAsync (PokemonInfo_initialStatus []))) :: string world)
       = \<lparr>status = ''pending'', data = Null, error = Null\<rparr>
   \<and> state (settle 1 (Fulfilled (Val ''pikachu''))
        (exec [Cleanup, Effect]
          (run (Some 1) (effect (useAsync (PokemonInfo_initialStatus []))))))
       = \<lparr>status = ''resolved'', data = Val ''pikachu'', error = Null\<rparr>
   \<and> state (settle 1 (Rejected (Val ''not found''))
        (exec [Cleanup, Effect]
          (run (Some 1) (effect (useAsync (PokemonInfo_initialStatus []))))))
       = \<lparr>status = ''rejected'', data = Null, error = Val ''not found''\<rparr>"
proof -
  let ?w = "effect (useAsync (PokemonInfo_initialStatus [])) :: string world"
  have m: "mountedRef ?w" by (simp add: effect_def)
  have n: "\<forall>e \<in> set ([Cleanup, Effect] :: string event list). \<forall>oc. e \<noteq> Settle 1 oc"
    by simp
  have l: "mountedRef (exec [Cleanup, Effect] (run (Some 1) ?w))"
    by (simp add: exec_def effect_def)
  have i: "state ?w = \<lparr>status = ''idle'', data = Null, error = Null\<rparr>"
    by (simp add: hook_defs)
  have u: "settled ?w 1 = None" by (simp add: hook_defs)
  show ?thesis
    using m n l i u
      run_then_settle [OF m n l, of "Fulfilled (Val ''pikachu'')"]
      run_then_settle [OF m n l, of "Rejected (Val ''not found'')"]
    by (simp add: settlement_state_def)
qed

text \<open>
  The claim as written fails: the instance is torn down while pending, the promise is
  fulfilled later, and the state stays pending instead of becoming resolved.
\<close>

theorem run_teardown_counterexample:
  "state (exec [Effect, Run (Some 1), Cleanup, Settle 1 (Fulfilled (Val ''pikachu''))]
          (useAsync (PokemonInfo_initialStatus [])))
     = \<lparr>status = ''pending'', data = Null, error = Null\<rparr>
   \<and> state (exec [Effect, Run (Some 1), Cleanup, Settle 1 (Fulfilled (Val ''pikachu''))]
          (useAsync (PokemonInfo_initialStatus [])))
     \<noteq> \<lparr>status = ''resolved'', data = Val ''pikachu'', error = Null\<rparr>"
  by (simp add: hook_defs)

section \<open>After teardown\<close>

lemma occur_unmounted:
  assumes "\<not> mountedRef w" "e \<noteq> Effect"
  shows "state (occur e w) = state w \<and> calls (occur e w) = calls w
    \<and> \<not> mountedRef (occur e w)"
  using assms
  by (cases e)
     (simp_all add: cleanup_def run_unmounted run_frame settle_unmounted settle_frame
        dispatch_unmounted)

lemma exec_unmounted:
  assumes "\<not> mountedRef w" "Effect \<notin> set evs"
  shows "state (exec evs w) = state w \<and> calls (exec evs w) = calls w
    \<and> \<not> mountedRef (exec evs w)"
  using assms unfolding exec_def
proof (induction evs arbitrary: w)
  case Nil
  then show ?case by simp
next
  case (Cons e evs)
  have e: "e \<noteq> Effect" and rest: "Effect \<notin> set evs" using Cons.prems(2) by auto
  note first = occur_unmounted [OF Cons.prems(1) e]
  from first have "\<not> mountedRef (occur e w)" by simp
  from Cons.IH [OF this rest] first show ?case by simp
qed

text \<open>
  Claim C2. Once the cleanup has set \<^verbatim>\<open>mountedRef.current\<close> to false, and as long as the
  effect does not run again (it never does after an unmount), nothing that happens
  changes the state or reaches the underlying \<^verbatim>\<open>unsafeDispatch\<close>: not a promise that
  settles, not a new \<^verbatim>\<open>run\<close>, not a direct dispatch. The state stays what it was at
  teardown and the log of calls of the mutator does not grow.
\<close>

theorem no_mutation_after_teardown:
  assumes "Effect \<notin> set evs"
  shows "state (exec evs (cleanup w)) = state w
    \<and> calls (exec evs (cleanup w)) = calls w"
proof -
  have "\<not> mountedRef (cleanup w)" by (simp add: cleanup_def)
  from exec_unmounted [OF this assms] show ?thesis by (simp add: cleanup_def)
qed

text \<open>
  The scenario of the specification: teardown while pending, then the promise is
  fulfilled (and another run is tried); the state is still pending and the mutator has
  seen the one action from before the teardown only.
\<close>

theorem no_mutation_after_teardown_witness:
  "Effect \<notin> set [Settle 1 (Fulfilled (Val ''pikachu'')), Run (Some 2)]
   \<and> state (exec [Settle 1 (Fulfilled (Val ''pikachu'')), Run (Some 2)]
        (cleanup (exec [Effect, Run (Some 1)] (useAsync (PokemonInfo_initialStatus [])))))
     = \<lparr>status = ''pending'', data = Null, error = Null\<rparr>
   \<and> calls (exec [Settle 1 (Fulfilled (Val ''pikachu'')), Run (Some 2)]
        (cleanup (exec [Effect, Run (Some 1)] (useAsync (PokemonInfo_initialStatus [])))))
     = [\<lparr>a_type = ''pending'', a_data = Undefined, a_error = Undefined\<rparr>]"
proof -
  have h: "Effect \<notin> set [Settle 1 (Fulfilled (Val ''pikachu'')), Run (Some 2)]" by simp
  have s: "state (exec [Effect, Run (Some 1)]
        (useAsync (PokemonInfo_initialStatus []) :: string world))
      = \<lparr>status = ''pending'', data = Null, error = Null\<rparr>"
    by (simp add: hook_defs)
  have c: "calls (exec [Effect, Run (Some 1)]
        (useAsync (PokemonInfo_initialStatus []) :: string world))
      = [\<lparr>a_type = ''pending'', a_data = Undefined, a_error = Undefined\<rparr>]"
    by (simp add: hook_defs)
  show ?thesis
    using h s c
      no_mutation_after_teardown [OF h,
        of "exec [Effect, Run (Some 1)] (useAsync (PokemonInfo_initialStatus []))"]
    by simp
qed

section \<open>No promise, no change\<close>

text \<open>
  Claim C5. When there is no promise the whole instance, and with it the state object
  (status, data, error), is left exactly as it was: \<^verbatim>\<open>run\<close> called with a null or
  undefined argument returns at once; so does the effect of the first version when the
  callback returns nothing; and the callback of \<^verbatim>\<open>PokemonInfo\<close> returns nothing, and its
  effect in the second version does nothing, when the name is empty.
\<close>

theorem no_future_no_change:
  "run None w = w
   \<and> (callback () = None \<longrightarrow> useAsync_effect callback w = w)
   \<and> asyncCallback fetchPokemon [] () = None
   \<and> PokemonInfo_effect fetchPokemon [] w = w"
  by (simp add: run_def useAsync_effect_def asyncCallback_def PokemonInfo_effect_def)

theorem no_future_no_change_witness:
  "asyncCallback (\<lambda>name. length name) [] () = None
   \<and> useAsync_effect (asyncCallback (\<lambda>name. length name) [])
        (exec [Effect, Run (Some 1), Settle 1 (Fulfilled (Val (25::nat)))]
           (useAsync (PokemonInfo_initialStatus [])))
      = exec [Effect, Run (Some 1), Settle 1 (Fulfilled (Val (25::nat)))]
           (useAsync (PokemonInfo_initialStatus []))"
  using no_future_no_change
    [of "exec [Effect, Run (Some 1), Settle 1 (Fulfilled (Val (25::nat)))]
           (useAsync (PokemonInfo_initialStatus []))"
        "asyncCallback (\<lambda>name. length name) []" "\<lambda>name. length name"]
  by (simp add: asyncCallback_def)

section \<open>The invariant of the state\<close>

lemma unsafeDispatch_inv:
  "variant_inv (state w) \<Longrightarrow> variant_inv (state (unsafeDispatch a w))"
  by (auto simp: unsafeDispatch_def reducer_def variant_inv_def)

lemma dispatch_inv: "variant_inv (state w) \<Longrightarrow> variant_inv (state (dispatch a w))"
  by (simp add: dispatch_def useSafeDispatch_def unsafeDispatch_inv)

lemma callbacks_inv:
  "variant_inv (state w) \<Longrightarrow> variant_inv (state (callbacks dispatch oc w))"
  by (simp add: callbacks_def dispatch_inv split: outcome.split)

lemma fold_callbacks_inv:
  "variant_inv (state w) \<Longrightarrow>
   variant_inv (state (fold (\<lambda>_. callbacks dispatch oc) xs w))"
  by (induction xs arbitrary: w) (simp_all add: callbacks_inv)

lemma settle_inv: "variant_inv (state w) \<Longrightarrow> variant_inv (state (settle p oc w))"
  unfolding settle_def settle_with_def Let_def
  by (rule fold_callbacks_inv) simp

lemma run_inv: "variant_inv (state w) \<Longrightarrow> variant_inv (state (run promise w))"
  by (simp add: run_def then_register_def dispatch_inv split: option.split)

lemma occur_inv: "variant_inv (state w) \<Longrightarrow> variant_inv (state (occur e w))"
  by (cases e) (simp_all add: effect_def cleanup_def run_inv settle_inv dispatch_inv)

lemma exec_inv: "variant_inv (state w) \<Longrightarrow> variant_inv (state (exec evs w))"
  unfolding exec_def by (induction evs arbitrary: w) (simp_all add: occur_inv)

lemma PokemonInfo_initial_inv:
  "variant_inv (state (useAsync (PokemonInfo_initialStatus pokemonName)))"
  by (simp add: useAsync_def PokemonInfo_initialStatus_def initial_state_def
        variant_inv_def)

text \<open>
  Claim C6. Whatever the name \<^verbatim>\<open>PokemonInfo\<close> is first rendered with, and through every
  sequence of effect runs, cleanups, calls of \<^verbatim>\<open>run\<close>, settlements and dispatched
  actions, the state has one of the four statuses, its data is non-null only when it is
  resolved and its error is non-null only when it is rejected. More generally every
  event sequence keeps these three facts once they hold.
\<close>

theorem reachable_variant_inv:
  "variant_inv (state (exec evs (useAsync (PokemonInfo_initialStatus pokemonName))))
   \<and> (variant_inv (state w) \<longrightarrow> variant_inv (state (exec evs w)))"
  by (simp add: exec_inv PokemonInfo_initial_inv)

theorem reachable_variant_inv_witness:
  "data (state (exec [Effect, Run (Some 1), Settle 1 (Fulfilled (Val ''pikachu''))]
        (useAsync (PokemonInfo_initialStatus ''pikachu'')))) \<noteq> Null
   \<and> status (state (exec [Effect, Run (Some 1), Settle 1 (Fulfilled (Val ''pikachu''))]
        (useAsync (PokemonInfo_initialStatus ''pikachu'')))) = ''resolved''
   \<and> error (state (exec [Effect, Run (Some 1), Settle 1 (Rejected (Val ''not found''))]
        (useAsync (PokemonInfo_initialStatus ''zzz'')))) \<noteq> Null
   \<and> status (state (exec [Effect, Run (Some 1), Settle 1 (Rejected (Val ''not found''))]
        (useAsync (PokemonInfo_initialStatus ''zzz'')))) = ''rejected''
   \<and> variant_inv \<lparr>status = ''idle'', data = Null, error = (Null :: string jsval)\<rparr>
   \<and> variant_inv (state (exec [Dispatch \<lparr>a_type = ''reset'', a_data = Undefined,
          a_error = Undefined\<rparr>]
        \<lparr>state = \<lparr>status = ''idle'', data = Null, error = (Null :: string jsval)\<rparr>,
         mountedRef = True, reactions = [], settled = Map.empty, calls = [],
         thrown = []\<rparr>))"
proof -
  have d: "data (state (exec [Effect, Run (Some 1), Settle 1 (Fulfilled (Val ''pikachu''))]
        (useAsync (PokemonInfo_initialStatus ''pikachu'')))) \<noteq> Null"
    by (simp add: hook_defs)
  have e: "error (state (exec [Effect, Run (Some 1), Settle 1 (Rejected (Val ''not found''))]
        (useAsync (PokemonInfo_initialStatus ''zzz'')))) \<noteq> Null"
    by (simp add: hook_defs)
  have i: "variant_inv \<lparr>status = ''idle'', data = Null, error = (Null :: string jsval)\<rparr>"
    by (simp add: variant_inv_def)
  show ?thesis
    using d e i
      reachable_variant_inv
        [of "[Effect, Run (Some 1), Settle 1 (Fulfilled (Val ''pikachu''))]" "''pikachu''"
            "\<lparr>state = \<lparr>status = ''idle'', data = Null, error = (Null :: string jsval)\<rparr>,
              mountedRef = True, reactions = [], settled = Map.empty, calls = [],
              thrown = []\<rparr>"]
      reachable_variant_inv
        [of "[Effect, Run (Some 1), Settle 1 (Rejected (Val ''not found''))]" "''zzz''"
            "\<lparr>state = \<lparr>status = ''idle'', data = Null, error = (Null :: string jsval)\<rparr>,
              mountedRef = True, reactions = [], settled = Map.empty, calls = [],
              thrown = []\<rparr>"]
      reachable_variant_inv
        [of "[Dispatch \<lparr>a_type = ''reset'', a_data = Undefined, a_error = Undefined\<rparr>]"
            "[]"
            "\<lparr>state = \<lparr>status = ''idle'', data = Null, error = (Null :: string jsval)\<rparr>,
              mountedRef = True, reactions = [], settled = Map.empty, calls = [],
              thrown = []\<rparr>"]
    by (simp add: variant_inv_def)
qed

section \<open>Order of the transitions\<close>

lemma pending_state_eq:
  "variant_inv s \<Longrightarrow> status s = ''pending'' \<Longrightarrow>
   s = \<lparr>status = ''pending'', data = Null, error = Null\<rparr>"
  by (cases s) (auto simp: variant_inv_def)

lemma run_transition:
  assumes "variant_inv (state w)" "mountedRef w"
  shows "transition_ok (state w) (state (run (Some p) w))"
proof (cases "status (state w) = ''pending''")
  case True
  from pending_state_eq [OF assms(1) True] show ?thesis
    by (simp add: transition_ok_def run_state [OF assms(2)])
next
  case False
  then have "status (state w) \<in> {''idle'', ''resolved'', ''rejected''}"
    using assms(1) by (auto simp: variant_inv_def)
  then show ?thesis
    by (simp add: transition_ok_def run_state [OF assms(2)])
qed

lemma settle_transition:
  assumes "reactions w \<noteq> [] \<longrightarrow> status (state w) = ''pending''"
  shows "transition_ok (state w) (state (settle p oc w))"
proof (cases "mountedRef w \<and> p \<in> set (reactions w)")
  case True
  then have "status (state w) = ''pending''" using assms by auto
  moreover have "status (state (settle p oc w)) \<in> {''resolved'', ''rejected''}"
    using True
    by (simp add: settle_state settlement_state_def split: outcome.split option.split)
  ultimately show ?thesis by (simp add: transition_ok_def)
next
  case False
  then have "state (settle p oc w) = state w"
    using settle_absent settle_unmounted by blast
  then show ?thesis by (simp add: transition_ok_def)
qed

text \<open>
  While runs do not overlap at most one callback is waiting, and while one is waiting
  the state is pending. One admissible event keeps this and makes an allowed change.
\<close>

lemma occur_sequential:
  assumes "variant_inv (state w)"
    and "length (reactions w) \<le> 1"
    and "reactions w \<noteq> [] \<longrightarrow> status (state w) = ''pending''"
    and "admissible e w"
  shows "transition_ok (state w) (state (occur e w))"
    and "length (reactions (occur e w)) \<le> 1"
    and "reactions (occur e w) \<noteq> [] \<longrightarrow> status (state (occur e w)) = ''pending''"
proof -
  show "transition_ok (state w) (state (occur e w))"
  proof (cases e)
    case (Run promise)
    show ?thesis
    proof (cases promise)
      case None
      with Run show ?thesis by (simp add: run_def transition_ok_def)
    next
      case (Some p)
      with Run assms(4) have "mountedRef w" by simp
      from run_transition [OF assms(1) this] Run Some show ?thesis by simp
    qed
  next
    case (Settle p oc)
    then show ?thesis using assms(3) by (simp add: settle_transition)
  qed (use assms(4) in \<open>simp_all add: transition_ok_def effect_def cleanup_def\<close>)
  show "length (reactions (occur e w)) \<le> 1"
  proof (cases e)
    case (Run promise)
    then show ?thesis
      using assms(2,4) by (cases promise) (simp_all add: run_frame)
  next
    case (Settle p oc)
    have "length (filter (\<lambda>q. q \<noteq> p) (reactions w)) \<le> 1"
      by (rule le_trans [OF length_filter_le assms(2)])
    then show ?thesis using Settle by (simp add: settle_frame)
  qed (use assms(2,4) in \<open>simp_all add: effect_def cleanup_def\<close>)
  show "reactions (occur e w) \<noteq> [] \<longrightarrow> status (state (occur e w)) = ''pending''"
  proof (cases e)
    case (Run promise)
    show ?thesis
    proof (cases promise)
      case None
      with Run assms(3) show ?thesis by (simp add: run_def)
    next
      case (Some p)
      with Run assms(4) have "mountedRef w" by simp
      from run_state [OF this] Run Some show ?thesis by simp
    qed
  next
    case (Settle p oc)
    show ?thesis
    proof (cases "p \<in> set (reactions w)")
      case True
      then obtain q where "reactions w = [q]"
        using assms(2) by (cases "reactions w") auto
      with True have "filter (\<lambda>q. q \<noteq> p) (reactions w) = []" by simp
      then show ?thesis using Settle by (simp add: settle_frame)
    next
      case False
      then have "filter (\<lambda>q. q \<noteq> p) (reactions w) = reactions w"
        by (simp add: filter_id_conv) blast
      then show ?thesis
        using Settle assms(3) settle_absent [OF False] by (simp add: settle_frame)
    qed
  qed (use assms(3,4) in \<open>simp_all add: effect_def cleanup_def\<close>)
qed

lemma sequential_transitions:
  assumes "variant_inv (state w)"
    and "length (reactions w) \<le> 1"
    and "reactions w \<noteq> [] \<longrightarrow> status (state w) = ''pending''"
    and "sequential evs w"
  shows "transitions_ok evs w"
  using assms
proof (induction evs arbitrary: w)
  case Nil
  then show ?case by simp
next
  case (Cons e evs)
  have adm: "admissible e w" and rest: "sequential evs (occur e w)"
    using Cons.prems(4) by simp_all
  note step = occur_sequential [OF Cons.prems(1-3) adm]
  have "transitions_ok evs (occur e w)"
    using Cons.IH [OF occur_inv [OF Cons.prems(1)] step(2) step(3) rest] .
  with step(1) show ?case by simp
qed

text \<open>
  Claim C7, amended. When runs do not overlap, that is, \<^verbatim>\<open>run\<close> is called with a
  promise only while \<^verbatim>\<open>mountedRef.current\<close> is true and only once every callback that an
  earlier run registered has been called (that a promise has settled is not enough: a
  callback registered on a promise that had already settled is still waiting until it
  is called), and the state is changed through \<^verbatim>\<open>run\<close> only, every step of the hook of
  \<^verbatim>\<open>PokemonInfo\<close> either leaves the state as it is (as a run in the pending state
  does) or takes it from idle, resolved or rejected into pending, or from pending into
  resolved or rejected.
\<close>

theorem sequential_runs_one_directional:
  assumes "sequential evs (useAsync (PokemonInfo_initialStatus pokemonName))"
  shows "transitions_ok evs (useAsync (PokemonInfo_initialStatus pokemonName))"
proof -
  let ?w = "useAsync (PokemonInfo_initialStatus pokemonName) :: 'a world"
  have l: "length (reactions ?w) \<le> 1" by (simp add: useAsync_def)
  have r: "reactions ?w \<noteq> [] \<longrightarrow> status (state ?w) = ''pending''"
    by (simp add: useAsync_def)
  show ?thesis
    using sequential_transitions [OF PokemonInfo_initial_inv l r assms] .
qed

theorem sequential_runs_one_directional_witness:
  "sequential
     [Effect, Run (Some 1), Settle 1 (Fulfilled (Val ''pikachu'')), Cleanup, Effect,
      Run (Some 2), Settle 2 (Rejected (Val ''not found''))]
     (useAsync (PokemonInfo_initialStatus []))
   \<and> transitions_ok
     [Effect, Run (Some 1), Settle 1 (Fulfilled (Val ''pikachu'')), Cleanup, Effect,
      Run (Some 2), Settle 2 (Rejected (Val ''not found''))]
     (useAsync (PokemonInfo_initialStatus []))"
proof -
  have h: "sequential
     [Effect, Run (Some 1), Settle 1 (Fulfilled (Val ''pikachu'')), Cleanup, Effect,
      Run (Some 2), Settle 2 (Rejected (Val ''not found''))]
     (useAsync (PokemonInfo_initialStatus []))"
    by (simp add: hook_defs)
  from h sequential_runs_one_directional [OF h] show ?thesis by simp
qed

text \<open>
  The claim as written fails when two runs overlap: the first promise is fulfilled,
  then the second is rejected, and the state goes from resolved to rejected.
\<close>

theorem overlapping_runs_counterexample:
  "state (exec [Effect, Run (Some 1), Run (Some 2), Settle 1 (Fulfilled (Val ''pikachu''))]
          (useAsync (PokemonInfo_initialStatus [])))
     = \<lparr>status = ''resolved'', data = Val ''pikachu'', error = Null\<rparr>
   \<and> state (exec [Effect, Run (Some 1), Run (Some 2), Settle 1 (Fulfilled (Val ''pikachu'')),
                 Settle 2 (Rejected (Val ''not found''))]
          (useAsync (PokemonInfo_initialStatus [])))
     = \<lparr>status = ''rejected'', data = Null, error = Val ''not found''\<rparr>
   \<and> \<not> transitions_ok
       [Effect, Run (Some 1), Run (Some 2),
        Settle 1 (Fulfilled (Val ''pikachu'')), Settle 2 (Rejected (Val ''not found''))]
       (useAsync (PokemonInfo_initialStatus []))"
  by (simp add: hook_defs transition_ok_def)

section \<open>Overlapping runs\<close>





section \<open>The counter\<close>

lemma bit_length_numeral [simp]:
  "bit_length 0 = 0"
  "bit_length (Suc 0) = Suc 0"
  "bit_length (numeral Num.One) = Suc 0"
  "bit_length (numeral (Num.Bit0 k)) = Suc (bit_length (numeral k))"
  "bit_length (numeral (Num.Bit1 k)) = Suc (bit_length (numeral k))"
proof -
  show z: "bit_length 0 = 0" by (simp add: bit_length.simps)
  show o: "bit_length (Suc 0) = Suc 0" by (subst bit_length.simps) (simp add: z)
  then show "bit_length (numeral Num.One) = Suc 0" by simp
  have a: "(numeral (Num.Bit0 k) :: nat) div 2 = numeral k" by simp
  have b: "(numeral (Num.Bit1 k) :: nat) div 2 = numeral k" by simp
  show "bit_length (numeral (Num.Bit0 k)) = Suc (bit_length (numeral k))"
    by (subst bit_length.simps) (simp only: a, simp)
  show "bit_length (numeral (Num.Bit1 k)) = Suc (bit_length (numeral k))"
    by (subst bit_length.simps) (simp only: b, simp)
qed

lemma funpow_two: "(f ^^ 2) x = f (f x)"
  by (simp add: numeral_2_eq_2)

lemma bit_length_le: "n < 2 ^ k \<Longrightarrow> bit_length n \<le> k"
proof (induction k arbitrary: n)
  case 0
  then show ?case by simp
next
  case (Suc k)
  show ?case
  proof (cases "n = 0")
    case True
    then show ?thesis by simp
  next
    case False
    have "n div 2 < 2 ^ k" using Suc.prems by auto
    from Suc.IH [OF this] False show ?thesis
      by (subst bit_length.simps) simp
  qed
qed

lemma bit_length_double: "0 < n \<Longrightarrow> bit_length (2 * n) = Suc (bit_length n)"
  by (subst bit_length.simps) simp

lemma bit_length_scale: "0 < n \<Longrightarrow> bit_length (n * 2 ^ k) = bit_length n + k"
proof (induction k)
  case 0
  then show ?case by simp
next
  case (Suc k)
  have eq: "n * 2 ^ Suc k = 2 * (n * 2 ^ k)" by simp
  have pos: "0 < n * 2 ^ k" using Suc.prems by simp
  have "bit_length (n * 2 ^ Suc k) = bit_length (2 * (n * 2 ^ k))" by (simp only: eq)
  also have "\<dots> = Suc (bit_length (n * 2 ^ k))" using pos by (rule bit_length_double)
  also have "\<dots> = bit_length n + Suc k" using Suc.IH [OF Suc.prems] by simp
  finally show ?case .
qed

lemma bit_length_ge: "2 ^ k \<le> n \<Longrightarrow> k < bit_length n"
proof (induction k arbitrary: n)
  case 0
  then show ?case by (subst bit_length.simps) auto
next
  case (Suc k)
  have "2 ^ k \<le> n div 2" using Suc.prems by auto
  from Suc.IH [OF this] have "k < bit_length (n div 2)" .
  moreover have "(0::nat) < 2 ^ Suc k" by simp
  then have "0 < n" using Suc.prems by (rule less_le_trans)
  then have "n \<noteq> 0" by simp
  ultimately show ?case by (subst bit_length.simps) simp
qed

lemma round53_scale:
  assumes "2 ^ 53 \<le> a"
  shows "round53 (a * 2 ^ k) = round53 a * 2 ^ k"
proof -
  have pos: "0 < a" using assms by (cases "a = 0") simp_all
  have L: "53 < bit_length a" using assms by (rule bit_length_ge)
  define e where "e = bit_length a - 53"
  have e1: "1 \<le> e" using L by (simp add: e_def)
  have e': "bit_length (a * 2 ^ k) - 53 = e + k"
    using L by (simp add: bit_length_scale [OF pos] e_def)
  have p: "(2::nat) ^ (e + k) = 2 ^ e * 2 ^ k" by (simp add: power_add)
  have h: "(2::nat) ^ (e + k - 1) = 2 ^ (e - 1) * 2 ^ k"
    using e1 by (simp add: power_add [symmetric])
  have q: "a * 2 ^ k div (2 ^ e * 2 ^ k) = a div 2 ^ e" by simp
  have r: "a * 2 ^ k mod (2 ^ e * 2 ^ k) = a mod 2 ^ e * 2 ^ k" by simp
  show ?thesis
    unfolding round53_def Let_def e' e_def [symmetric] p h q r
    by (simp add: mult.assoc)
qed


lemma round53_exact: "2 ^ (bit_length a - 53) dvd a \<Longrightarrow> round53 a = a"
proof -
  assume d: "2 ^ (bit_length a - 53) dvd a"
  let ?e = "bit_length a - 53"
  have r: "a mod 2 ^ ?e = 0" using d by (rule dvd_imp_mod_0)
  have q: "a div 2 ^ ?e * 2 ^ ?e = a" using d by (rule dvd_div_mult_self)
  have c1: "((2::nat) ^ (?e - 1) < 0) = False" by simp
  have c2: "((0::nat) = 2 ^ (?e - 1)) = False" by simp
  show ?thesis
    by (simp only: round53_def Let_def r c1 c2 simp_thms if_False q)
qed

lemma round_double_exact: "is_double x \<Longrightarrow> round_double x = Fin x"
proof (cases "\<bar>x\<bar> \<le> 2 ^ 53")
  case True
  then show ?thesis by (simp add: round_double_def)
next
  case False
  assume "is_double x"
  with False have small: "nat \<bar>x\<bar> < 2 ^ (1024 + subnormal_bits)"
    and d: "2 ^ (bit_length (nat \<bar>x\<bar>) - 53) dvd nat \<bar>x\<bar>"
    by (simp_all only: is_double_def simp_thms)
  have a: "(2 ^ (1024 + subnormal_bits) \<le> nat \<bar>x\<bar>) = False"
    using small by (simp only: not_le [symmetric] simp_thms)
  have s: "sgn x * int (nat \<bar>x\<bar>) = x" by (simp add: sgn_if)
  show ?thesis
    by (simp only: round_double_def Let_def if_not_P [OF False] round53_exact [OF d]
          a if_False s)
qed

lemma is_double_scaled:
  assumes "\<bar>m\<bar> \<le> 2 ^ 53" "e \<le> 970 + subnormal_bits"
  shows "is_double (m * 2 ^ e)"
proof -
  let ?x = "m * 2 ^ e"
  let ?a = "nat \<bar>?x\<bar>"
  have ax: "?a = nat \<bar>m\<bar> * 2 ^ e"
    by (simp add: abs_mult nat_mult_distrib nat_power_eq)
  have m: "nat \<bar>m\<bar> \<le> 2 ^ 53" using assms(1) by (simp add: nat_le_iff)
  have "?a \<le> 2 ^ 53 * 2 ^ e" unfolding ax using m by (rule mult_right_mono) simp
  also have "\<dots> = (2::nat) ^ (53 + e)" by (simp only: power_add)
  also have "\<dots> < 2 ^ (1024 + subnormal_bits)"
    by (rule power_strict_increasing) (use assms(2) in simp_all)
  finally have small: "?a < 2 ^ (1024 + subnormal_bits)" .
  have "2 ^ (bit_length ?a - 53) dvd ?a"
  proof (cases "nat \<bar>m\<bar> = 2 ^ 53")
    case True
    then have a: "?a = 2 ^ (53 + e)"
      by (simp only: ax power_add)
    have "(2::nat) ^ (53 + e) < 2 ^ (54 + e)"
      by (rule power_strict_increasing) simp_all
    then have "bit_length ?a \<le> 54 + e" unfolding a by (rule bit_length_le)
    then have "bit_length ?a - 53 \<le> 53 + e" by simp
    then have "(2::nat) ^ (bit_length ?a - 53) dvd 2 ^ (53 + e)" by (rule le_imp_power_dvd)
    then show ?thesis by (simp only: a [symmetric])
  next
    case False
    then have "nat \<bar>m\<bar> < 2 ^ 53" using m by simp
    then have "?a < 2 ^ 53 * 2 ^ e" unfolding ax by simp
    then have "?a < 2 ^ (53 + e)" by (simp only: power_add)
    then have "bit_length ?a \<le> 53 + e" by (rule bit_length_le)
    then have "bit_length ?a - 53 \<le> e" by simp
    then have "(2::nat) ^ (bit_length ?a - 53) dvd 2 ^ e" by (rule le_imp_power_dvd)
    then show ?thesis unfolding ax by (rule dvd_mult)
  qed
  with small show ?thesis by (simp only: is_double_def simp_thms)
qed

lemma Counter_exact:
  "(\<forall>j. 1 \<le> j \<and> j \<le> k \<longrightarrow> is_double (c0 + int j * s)) \<Longrightarrow>
   (increment (Fin s) ^^ k) (Fin c0) = Fin (c0 + int k * s)"
proof (induction k)
  case 0
  then show ?case by simp
next
  case (Suc k)
  have "\<forall>j. 1 \<le> j \<and> j \<le> k \<longrightarrow> is_double (c0 + int j * s)" using Suc.prems by simp
  then have IH: "(increment (Fin s) ^^ k) (Fin c0) = Fin (c0 + int k * s)"
    by (rule Suc.IH)
  have "1 \<le> Suc k \<and> Suc k \<le> Suc k" by simp
  with Suc.prems have "is_double (c0 + int (Suc k) * s)" by blast
  then have "is_double (c0 + int k * s + s)" by (simp add: algebra_simps)
  then have exact: "round_double (c0 + int k * s + s) = Fin (c0 + int k * s + s)"
    by (rule round_double_exact)
  have "(increment (Fin s) ^^ Suc k) (Fin c0) = increment (Fin s) (Fin (c0 + int k * s))"
    by (simp add: IH)
  also have "\<dots> = round_double (c0 + int k * s + s)"
    by (simp add: increment_def countReducer_def)
  also have "\<dots> = Fin (c0 + int k * s + s)"
    by (rule exact)
  also have "\<dots> = Fin (c0 + int (Suc k) * s)"
    by (simp add: algebra_simps)
  finally show ?case .
qed

lemma round53_odd_tie: "round53 9007199254740993 = 9007199254740992"
  by (simp add: round53_def)

lemma add_one_at_limit:
  "countReducer (js_int 9007199254740992) (js_int 1) = js_int 9007199254740992"
proof -
  let ?u = "(2::int) ^ subnormal_bits"
  let ?x = "9007199254740993 * ?u"
  have sum: "9007199254740992 * ?u + 1 * ?u = ?x" by (simp add: algebra_simps)
  have u: "1 \<le> ?u" by simp
  have "9007199254740993 * 1 \<le> ?x" using u by (rule mult_left_mono) simp
  then have le: "9007199254740993 \<le> ?x" by (simp only: mult_1_right)
  have "\<not> ?x \<le> 9007199254740992" using le by linarith
  then have big: "\<not> \<bar>?x\<bar> \<le> 2 ^ 53" by simp
  have a: "nat \<bar>?x\<bar> = 9007199254740993 * 2 ^ subnormal_bits"
    by (simp add: abs_mult nat_mult_distrib nat_power_eq)
  have r: "round53 (nat \<bar>?x\<bar>) = 9007199254740992 * 2 ^ subnormal_bits"
    unfolding a by (subst round53_scale) (simp_all add: round53_odd_tie)
  have "(2::nat) ^ 53 * 2 ^ subnormal_bits = 2 ^ (53 + subnormal_bits)"
    by (simp only: power_add)
  also have "\<dots> < 2 ^ (1024 + subnormal_bits)"
    by (rule power_strict_increasing) simp_all
  finally have fin: "\<not> 2 ^ (1024 + subnormal_bits) \<le> (9007199254740992::nat) * 2 ^ subnormal_bits"
    by simp
  have pos: "0 < ?x" by simp
  have "round_double ?x = Fin (9007199254740992 * ?u)"
    unfolding round_double_def Let_def r
    using big fin pos by (simp add: sgn_if)
  then show ?thesis
    by (simp only: countReducer_def js_int_def js_add.simps sum)
qed

text \<open>
  Claim C10, amended. The reducer of the counter adds the dispatched value to the
  count: for finite numbers \<open>c\<close> and \<open>n\<close> whose exact sum is a double the new count is
  \<open>c + n\<close>. So a counter created with \<open>initialCount = c0\<close> and \<open>step = s\<close> shows
  \<open>c0 + k * s\<close> after \<open>k\<close> clicks whenever each of the exact counts \<open>c0 + j * s\<close> for
  \<open>j\<close> from 1 to \<open>k\<close> is a double; with the defaults it shows \<open>k\<close> after \<open>k\<close> clicks, for
  \<open>k\<close> up to \<open>2^53\<close>. (Values are in units of \<open>2^-1074\<close>, which the sums and products
  here respect.)
\<close>

theorem counter_adds:
  "(is_double (c + n) \<longrightarrow> countReducer (Fin c) (Fin n) = Fin (c + n))
   \<and> ((\<forall>j. 1 \<le> j \<and> j \<le> k \<longrightarrow> is_double (c0 + int j * s)) \<longrightarrow>
        Counter (Some (Fin c0)) (Some (Fin s)) k = Fin (c0 + int k * s))
   \<and> (int k \<le> 2 ^ 53 \<longrightarrow> Counter None None k = js_int (int k))"
proof (intro conjI impI)
  assume "is_double (c + n)"
  then show "countReducer (Fin c) (Fin n) = Fin (c + n)"
    by (simp add: countReducer_def round_double_exact)
next
  assume "\<forall>j. 1 \<le> j \<and> j \<le> k \<longrightarrow> is_double (c0 + int j * s)"
  then show "Counter (Some (Fin c0)) (Some (Fin s)) k = Fin (c0 + int k * s)"
    by (simp add: Counter_def Counter_exact)
next
  assume k: "int k \<le> 2 ^ 53"
  let ?u = "(2::int) ^ subnormal_bits"
  have "\<forall>j. 1 \<le> j \<and> j \<le> k \<longrightarrow> is_double (0 * ?u + int j * (1 * ?u))"
  proof (intro allI impI)
    fix j assume "1 \<le> j \<and> j \<le> k"
    then have "\<bar>int j\<bar> \<le> 2 ^ 53" using k by simp
    then have "is_double (int j * ?u)" by (rule is_double_scaled) simp
    then show "is_double (0 * ?u + int j * (1 * ?u))" by simp
  qed
  from Counter_exact [OF this]
  have "(increment (Fin (1 * ?u)) ^^ k) (Fin (0 * ?u)) = Fin (0 * ?u + int k * (1 * ?u))" .
  then show "Counter None None k = js_int (int k)"
    by (simp add: Counter_def js_int_def)
qed


text \<open>
  Instances: \<open>40 + 2 = 42\<close>; from 10 in steps of 0.5, three clicks show 11.5; from
  \<open>2^53\<close> in steps of 2, two clicks show \<open>2^53 + 4\<close>; the defaults show 3 after three
  clicks.
\<close>

theorem counter_adds_witness:
  "is_double (40 * 2 ^ subnormal_bits + 2 * 2 ^ subnormal_bits)
   \<and> countReducer (js_int 40) (js_int 2) = js_int 42
   \<and> is_double (10 * 2 ^ subnormal_bits + int 1 * 2 ^ (subnormal_bits - 1))
   \<and> is_double (10 * 2 ^ subnormal_bits + int 2 * 2 ^ (subnormal_bits - 1))
   \<and> is_double (10 * 2 ^ subnormal_bits + int 3 * 2 ^ (subnormal_bits - 1))
   \<and> Counter (Some (js_int 10)) (Some js_half) 3 = Fin (23 * 2 ^ (subnormal_bits - 1))
   \<and> Counter (Some (js_int 9007199254740992)) (Some (js_int 2)) 2
       = js_int (9007199254740992 + 2 * 2)
   \<and> int 3 \<le> 2 ^ 53 \<and> Counter None None 3 = js_int 3"
proof -
  let ?u = "(2::int) ^ subnormal_bits"
  let ?v = "(2::int) ^ (subnormal_bits - 1)"
  have S: "subnormal_bits = Suc (subnormal_bits - 1)" by (simp add: subnormal_bits_def)
  have "?u = 2 ^ Suc (subnormal_bits - 1)" by (subst S) (rule refl)
  then have two: "?u = 2 * ?v" by (simp only: power_Suc)
  have up: "2 * ?u = 2 ^ (subnormal_bits + 1)" by simp
  have sv: "\<And>m. \<bar>m\<bar> \<le> 2 ^ 53 \<Longrightarrow> is_double (m * ?v)"
    by (rule is_double_scaled) simp_all
  have su: "\<And>m. \<bar>m\<bar> \<le> 2 ^ 53 \<Longrightarrow> is_double (m * ?u)"
    by (rule is_double_scaled) simp_all
  have sw: "\<And>m. \<bar>m\<bar> \<le> 2 ^ 53 \<Longrightarrow> is_double (m * (2 * ?u))"
    unfolding up by (rule is_double_scaled) simp_all
  have "40 * ?u + 2 * ?u = 42 * ?u" by simp
  then have a: "is_double (40 * ?u + 2 * ?u)" using su [of 42] by simp
  have b: "\<forall>j. 1 \<le> j \<and> j \<le> (3::nat) \<longrightarrow> is_double (10 * ?u + int j * ?v)"
  proof (intro allI impI)
    fix j :: nat assume "1 \<le> j \<and> j \<le> 3"
    then have m: "\<bar>20 + int j\<bar> \<le> 2 ^ 53" by simp
    have "10 * ?u + int j * ?v = (20 + int j) * ?v"
      by (subst two) (simp add: algebra_simps)
    with sv [OF m] show "is_double (10 * ?u + int j * ?v)" by simp
  qed
  have b': "\<forall>j. 1 \<le> j \<and> j \<le> (2::nat) \<longrightarrow>
      is_double (9007199254740992 * ?u + int j * (2 * ?u))"
  proof (intro allI impI)
    fix j :: nat assume "1 \<le> j \<and> j \<le> 2"
    then have m: "\<bar>4503599627370496 + int j\<bar> \<le> 2 ^ 53" by simp
    have "9007199254740992 * ?u + int j * (2 * ?u) = (4503599627370496 + int j) * (2 * ?u)"
      by (simp add: algebra_simps)
    with sw [OF m] show "is_double (9007199254740992 * ?u + int j * (2 * ?u))" by simp
  qed
  have c: "int 3 \<le> 2 ^ 53" by simp
  have b1: "is_double (10 * ?u + int 1 * ?v)"
    and b2: "is_double (10 * ?u + int 2 * ?v)"
    and b3: "is_double (10 * ?u + int 3 * ?v)"
    using b [rule_format, of 1] b [rule_format, of 2] b [rule_format, of 3] by simp_all
  note t1 = counter_adds [of "40 * ?u" "2 * ?u" 3 "10 * ?u" "?v"]
  note t2 = counter_adds [of 0 0 2 "9007199254740992 * ?u" "2 * ?u"]
  have r1: "countReducer (js_int 40) (js_int 2) = js_int 42"
    using t1 a by (simp add: js_int_def)
  have "10 * ?u + int 3 * ?v = 23 * ?v" by (subst two) simp
  then have r2: "Counter (Some (js_int 10)) (Some js_half) 3 = Fin (23 * ?v)"
    using t1 b by (simp add: js_int_def js_half_def)
  have r3: "Counter (Some (js_int 9007199254740992)) (Some (js_int 2)) 2
       = js_int (9007199254740992 + 2 * 2)"
    using t2 b' by (simp add: js_int_def algebra_simps)
  have r4: "Counter None None 3 = js_int 3"
    using t1 c by simp
  show ?thesis
    using a b1 b2 b3 r1 r2 r3 r4 c by blast
qed

text \<open>
  The claim as written fails where the exact sum is not a double: \<open>2^53 + 1\<close> lies half
  way between the doubles \<open>2^53\<close> and \<open>2^53 + 2\<close> and is rounded to \<open>2^53\<close>, so a counter
  created with \<open>initialCount = 2^53 = 9007199254740992\<close> and \<open>step = 1\<close> still shows
  \<open>2^53\<close> after two clicks, not \<open>2^53 + 2\<close>.
\<close>

theorem counter_precision_counterexample:
  "Counter (Some (js_int 9007199254740992)) (Some (js_int 1)) 2 = js_int 9007199254740992
   \<and> Counter (Some (js_int 9007199254740992)) (Some (js_int 1)) 2
       \<noteq> js_int (9007199254740992 + 2 * 1)"
  by (simp add: Counter_def funpow_two increment_def add_one_at_limit)
     (simp add: js_int_def)

end
